theory Spec2Isabelle
  imports Main
begin

unbundle bit_operations_syntax

section \<open>The XTerm input decoder of \<^verbatim>\<open>textual/_xterm_parser.py\<close>\<close>

text \<open>
  The development embeds \<^verbatim>\<open>XTermParser.parse_mouse_code\<close> and \<^verbatim>\<open>XTermParser.parse\<close>.
  Python strings are modelled as \<^typ>\<open>string\<close>; the characters considered are the 8-bit code
  points, among which the decimal digits matched by \<^verbatim>\<open>\d\<close> are exactly \<^verbatim>\<open>0\<close>..\<^verbatim>\<open>9\<close>.
  Python integers are \<^typ>\<open>int\<close>. The constant \<^verbatim>\<open>sender\<close> passed to every event constructor is
  the same object for the whole life of a parser and is left out of the events.
\<close>

subsection \<open>Characters and the two regular expressions\<close>

definition ESC :: char where
  "ESC = CHR 0x1B"

definition NL :: char where
  "NL = CHR 0x0A"

definition is_digit :: "char \<Rightarrow> bool" where
  "is_digit c = (c \<in> set ''0123456789'')"

text \<open>The character class \<^verbatim>\<open>[\d;]\<close>.\<close>

definition is_digit_or_semi :: "char \<Rightarrow> bool" where
  "is_digit_or_semi c = (is_digit c \<or> c = CHR '';'')"

text \<open>
  The value of \<^verbatim>\<open>int(s)\<close> on a non-empty string of decimal digits, the only strings it is
  applied to. The limit on the number of digits beyond which \<^verbatim>\<open>int\<close> raises is modelled
  below, with the call of \<^verbatim>\<open>parse_mouse_code\<close>.
\<close>

definition digit_value :: "char \<Rightarrow> int" where
  "digit_value c = of_char c - 48"

definition py_int :: "string \<Rightarrow> int" where
  "py_int s = foldl (\<lambda>a c. 10 * a + digit_value c) 0 s"

text \<open>Matching one literal character at the head of the remaining text.\<close>

fun lit :: "char \<Rightarrow> string \<Rightarrow> string option" where
  "lit c [] = None"
| "lit c (d # s) = (if d = c then Some s else None)"

text \<open>
  The group \<^verbatim>\<open>(\d+)\<close>: the greedy match takes the longest run of digits. Every use below is
  followed by a character that is not a digit, so no shorter run can make the whole pattern
  match and the longest run is the only candidate.
\<close>

definition digits1 :: "string \<Rightarrow> (string \<times> string) option" where
  "digits1 s = (if takeWhile is_digit s = [] then None
                else Some (takeWhile is_digit s, dropWhile is_digit s))"

text \<open>
  \<^verbatim>\<open>_re_sgr_mouse = re.compile(r"\x1b\[<(\d+);(\d+);(\d+)([Mm])")\<close>, used through
  \<^verbatim>\<open>match\<close>: anchored at the start of the text only. The result is \<^verbatim>\<open>groups()\<close>.
\<close>

definition re_sgr_mouse :: "string \<Rightarrow> (string \<times> string \<times> string \<times> char) option" where
  "re_sgr_mouse code =
     (case lit ESC code of None \<Rightarrow> None | Some r0 \<Rightarrow>
     (case lit (CHR ''['') r0 of None \<Rightarrow> None | Some r1 \<Rightarrow>
     (case lit (CHR ''<'') r1 of None \<Rightarrow> None | Some r2 \<Rightarrow>
     (case digits1 r2 of None \<Rightarrow> None | Some (buttons, r3) \<Rightarrow>
     (case lit (CHR '';'') r3 of None \<Rightarrow> None | Some r4 \<Rightarrow>
     (case digits1 r4 of None \<Rightarrow> None | Some (x, r5) \<Rightarrow>
     (case lit (CHR '';'') r5 of None \<Rightarrow> None | Some r6 \<Rightarrow>
     (case digits1 r6 of None \<Rightarrow> None | Some (y, r7) \<Rightarrow>
     (case r7 of
        [] \<Rightarrow> None
      | state # _ \<Rightarrow>
          if state = CHR ''M'' \<or> state = CHR ''m''
          then Some (buttons, x, y, state) else None)))))))))"

text \<open>
  The first alternative of \<^verbatim>\<open>_re_mouse_event\<close>, \<^verbatim>\<open><?[\d;]+[mM]\Z\<close>: an optional \<^verbatim>\<open><\<close>, a
  non-empty run of digits and semicolons, one of \<^verbatim>\<open>m\<close> and \<^verbatim>\<open>M\<close>, then the end of the text.
\<close>

definition mouse_alt_sgr :: "string \<Rightarrow> bool" where
  "mouse_alt_sgr r =
     (let r' = (case lit (CHR ''<'') r of Some t \<Rightarrow> t | None \<Rightarrow> r)
      in takeWhile is_digit_or_semi r' \<noteq> [] \<and>
         (dropWhile is_digit_or_semi r' = ''m'' \<or> dropWhile is_digit_or_semi r' = ''M''))"

text \<open>
  The second alternative, \<^verbatim>\<open>M...\Z\<close>: the letter and exactly three characters, none of them
  a newline.
\<close>

definition mouse_alt_x10 :: "string \<Rightarrow> bool" where
  "mouse_alt_x10 r =
     (case r of [m, a, b, c] \<Rightarrow> m = CHR ''M'' \<and> a \<noteq> NL \<and> b \<noteq> NL \<and> c \<noteq> NL | _ \<Rightarrow> False)"

text \<open>
  \<^verbatim>\<open>_re_mouse_event = re.compile("^" + re.escape("\x1b[") + r"(<?[\d;]+[mM]|M...)\Z")\<close>;
  the value says whether \<^verbatim>\<open>match\<close> succeeds. A match always spans the whole text, so
  \<^verbatim>\<open>group(0)\<close> is the text itself.
\<close>

definition re_mouse_event :: "string \<Rightarrow> bool" where
  "re_mouse_event s =
     (case lit ESC s of None \<Rightarrow> False | Some r0 \<Rightarrow>
     (case lit (CHR ''['') r0 of None \<Rightarrow> False | Some r \<Rightarrow>
        mouse_alt_sgr r \<or> mouse_alt_x10 r))"

subsection \<open>Events and the parser object\<close>

text \<open>
  Each constructor carries the arguments of the call that builds the event in the source:
  a key event its \<^verbatim>\<open>key\<close>; a button or motion event \<^verbatim>\<open>x, y, delta_x, delta_y, button, shift,
  meta, ctrl, screen_x, screen_y\<close>; a wheel event \<^verbatim>\<open>x, y\<close>.
\<close>

datatype event =
    Key string
  | MouseDown int int int int int bool bool bool int int
  | MouseUp int int int int int bool bool bool int int
  | MouseMove int int int int int bool bool bool int int
  | MouseScrollDown int int
  | MouseScrollUp int int

text \<open>
  The lines handed to \<^verbatim>\<open>debug_log\<close> are the three f-strings of \<^verbatim>\<open>parse\<close>; a line is
  represented by the value it interpolates.
\<close>

datatype log_line =
    LogCharacter string
  | LogSequence string
  | LogMatched "string list option"

text \<open>
  The fields of \<^verbatim>\<open>XTermParser\<close> that change: the last mouse position and the optional debug
  file (\<^verbatim>\<open>None\<close> unless \<^verbatim>\<open>TEXTUAL_DEBUG\<close> is set), whose content is the list of lines written.
\<close>

record parser =
  last_x :: int
  last_y :: int
  debug_log_file :: "log_line list option"

text \<open>\<^verbatim>\<open>__init__\<close>, with the debug file opened or not.\<close>

definition init :: "bool \<Rightarrow> parser" where
  "init debug = \<lparr>last_x = 0, last_y = 0, debug_log_file = (if debug then Some [] else None)\<rparr>"

definition debug_log :: "log_line \<Rightarrow> parser \<Rightarrow> parser" where
  "debug_log l p =
     (case debug_log_file p of
        None \<Rightarrow> p
      | Some f \<Rightarrow> p\<lparr>debug_log_file := Some (f @ [l])\<rparr>)"

subsection \<open>\<^verbatim>\<open>parse_mouse_code\<close>\<close>

definition parse_mouse_code :: "string \<Rightarrow> parser \<Rightarrow> event option \<times> parser" where
  "parse_mouse_code code p =
     (case re_sgr_mouse code of
        Some (bs, xs, ys, state) \<Rightarrow>
          (let buttons = py_int bs;
               button = (buttons + 1) AND 3;
               x = py_int xs - 1;
               y = py_int ys - 1;
               delta_x = x - last_x p;
               delta_y = y - last_y p;
               p' = p\<lparr>last_x := x, last_y := y\<rparr>;
               event =
                 (if buttons AND 64 \<noteq> 0
                  then (if button = 1 then MouseScrollDown else MouseScrollUp) x y
                  else (if buttons AND 32 \<noteq> 0 then MouseMove
                        else if state = CHR ''M'' then MouseDown else MouseUp)
                         x y delta_x delta_y button
                         (buttons AND 4 \<noteq> 0) (buttons AND 8 \<noteq> 0) (buttons AND 16 \<noteq> 0)
                         x y)
           in (Some event, p'))
      | None \<Rightarrow> (None, p))"

text \<open>
  The conversions \<^verbatim>\<open>int(_buttons)\<close>, \<^verbatim>\<open>int(_x)\<close> and \<^verbatim>\<open>int(_y)\<close> of lines 43 to 46: \<^verbatim>\<open>int\<close>
  raises \<^verbatim>\<open>ValueError\<close> on a run of more than 4300 digits, the default limit of the
  interpreter. They come before the assignments of lines 49 and 50 and nothing in the source
  catches the exception, so when one of them raises the exception leaves
  \<^verbatim>\<open>parse_mouse_code\<close> with the parser as it was. \<^verbatim>\<open>parse_mouse_code_or_raise\<close> is the call as it
  runs; \<^verbatim>\<open>parse_mouse_code\<close> above is its result when no conversion raises.
\<close>

datatype error = ValueError

definition int_raises :: "string \<Rightarrow> bool" where
  "int_raises s = (4300 < length s)"

definition parse_mouse_code_raises :: "string \<Rightarrow> bool" where
  "parse_mouse_code_raises code =
     (case re_sgr_mouse code of
        Some (bs, xs, ys, state) \<Rightarrow> int_raises bs \<or> int_raises xs \<or> int_raises ys
      | None \<Rightarrow> False)"

definition parse_mouse_code_or_raise :: "string \<Rightarrow> parser \<Rightarrow> error + event option \<times> parser" where
  "parse_mouse_code_or_raise code p =
     (if parse_mouse_code_raises code then Inl ValueError else Inr (parse_mouse_code code p))"

subsection \<open>The driver and \<^verbatim>\<open>parse\<close>\<close>

text \<open>
  Modelled from the spec: the suspension engine (the base class \<^verbatim>\<open>Parser\<close> of
  \<^verbatim>\<open>_parser.py\<close>, with \<^verbatim>\<open>read1\<close>, \<^verbatim>\<open>peek_buffer\<close> and \<^verbatim>\<open>is_eof\<close>) and the driver that feeds it
  are not part of the sources at hand. Following sections 4.1, 5 and 6 of the specification,
  the input is a sequence of units delivered one at a time, each with the two booleans the
  driver supplies once the unit is delivered: \<^verbatim>\<open>buffered\<close>, whether another unit is already
  queued, and \<^verbatim>\<open>more_data\<close>, the answer of the callable \<^verbatim>\<open>more_data()\<close> (is more input expected).

  \<^verbatim>\<open>parse\<close> is a \<^verbatim>\<open>Generator[Awaitable, str, None]\<close>: each \<^verbatim>\<open>yield\<close> hands a request to the driver,
  and its value is the text the driver sends back. \<^verbatim>\<open>yield read1()\<close> comes back with the next
  unit. At the head of the inner loop, line 92 yields \<^verbatim>\<open>self.peek_buffer() or has_more_data\<close>:
  the request built by \<^verbatim>\<open>peek_buffer()\<close> is an object, hence true, so it is the value yielded
  whatever the flag, and the driver answers it with the queued text, which is true exactly
  when a unit is queued. The loop therefore goes on exactly when a unit is queued;
  \<^verbatim>\<open>has_more_data\<close>, computed at line 89, is an operand of the yielded value only and does not
  take part in the test.

  When the units fed are used up the routine stays suspended at a read. When the driver
  signals the end of the stream, the read comes back with the sentinel of section 4.1, the
  empty text.
\<close>

record input_unit =
  ch :: char
  buffered :: bool
  more_data :: bool

text \<open>
  \<^verbatim>\<open>ANSI_SEQUENCES\<close> is imported from a module that is not at hand: the table is a parameter.
\<close>

type_synonym table = "string \<rightharpoonup> string list"

subsection \<open>Notions used in the statements\<close>

text \<open>A non-empty run of decimal digits, the text of a group \<^verbatim>\<open>(\d+)\<close>.\<close>

definition digits :: "string \<Rightarrow> bool" where
  "digits s = (s \<noteq> [] \<and> list_all is_digit s)"

text \<open>
  The text \<^verbatim>\<open>ESC [ < B ; X ; Y (M|m)\<close> of an SGR mouse report with the fields \<^verbatim>\<open>b\<close>, \<^verbatim>\<open>x\<close>,
  \<^verbatim>\<open>y\<close> and the final character \<^verbatim>\<open>st\<close>.
\<close>

definition sgr_report :: "string \<Rightarrow> string \<Rightarrow> string \<Rightarrow> char \<Rightarrow> string" where
  "sgr_report b x y st = ESC # CHR ''['' # CHR ''<'' # b @ CHR '';'' # x @ CHR '';'' # y @ [st]"

text \<open>Two parsers with the same last mouse position.\<close>

definition same_mouse :: "parser \<Rightarrow> parser \<Rightarrow> bool" where
  "same_mouse p q = (last_x p = last_x q \<and> last_y p = last_y q)"

text \<open>
  No extension of \<^verbatim>\<open>sq\<close> by a non-empty prefix of \<^verbatim>\<open>cs\<close> is a key of the table, and none is
  matched by \<^verbatim>\<open>_re_mouse_event\<close>.
\<close>

fun no_key :: "table \<Rightarrow> string \<Rightarrow> string \<Rightarrow> bool" where
  "no_key tbl sq [] = True"
| "no_key tbl sq (c # cs) = (tbl (sq @ [c]) = None \<and> no_key tbl (sq @ [c]) cs)"

fun no_mouse :: "string \<Rightarrow> string \<Rightarrow> bool" where
  "no_mouse sq [] = True"
| "no_mouse sq (c # cs) = (\<not> re_mouse_event (sq @ [c]) \<and> no_mouse (sq @ [c]) cs)"

text \<open>
  The parser after the inner loop has extended \<^verbatim>\<open>sq\<close> by the characters \<^verbatim>\<open>cs\<close> without a
  table hit: two lines are handed to \<^verbatim>\<open>debug_log\<close> for each character.
\<close>

fun log_extension :: "string \<Rightarrow> string \<Rightarrow> parser \<Rightarrow> parser" where
  "log_extension sq [] p = p"
| "log_extension sq (c # cs) p =
     log_extension (sq @ [c]) cs
       (debug_log (LogMatched None) (debug_log (LogSequence (sq @ [c])) p))"

text \<open>
  A sequence of units that arrives in one piece: after every unit but the last, the next
  unit is already queued. Then the head of the inner loop lets every unit of the sequence be
  read.
\<close>

definition arrives_whole :: "input_unit list \<Rightarrow> bool" where
  "arrives_whole us = (us \<noteq> [] \<and> list_all buffered (butlast us))"


text \<open>
  Two results of the inner loop that agree up to the debug file: the same exception or the
  same events and input left, and the same last mouse position.
\<close>

fun same_escape ::
  "error \<times> parser + event list \<times> parser \<times> input_unit list
     \<Rightarrow> error \<times> parser + event list \<times> parser \<times> input_unit list \<Rightarrow> bool" where
  "same_escape (Inl (e, p)) (Inl (e', q)) = (e = e' \<and> same_mouse p q)"
| "same_escape (Inr (evs, p, r)) (Inr (evs', q, r')) = (evs = evs' \<and> same_mouse p q \<and> r = r')"
| "same_escape (Inl a) (Inr b) = False"
| "same_escape (Inr b) (Inl a) = False"

subsection \<open>The two loops of \<^verbatim>\<open>parse\<close>\<close>

text \<open>
  The inner loop \<^verbatim>\<open>while (yield self.peek_buffer() or has_more_data)\<close>. \<^verbatim>\<open>avail\<close> says whether
  a unit is queued, which is what the loop tests; \<^verbatim>\<open>has_more_data\<close> is passed along as in the
  source and is not tested. The result is either the exception that leaves the loop, with
  the parser at that point, or the events given to \<^verbatim>\<open>on_token\<close>, the parser and the input left
  for the outer loop. An event object returned by \<^verbatim>\<open>parse_mouse_code\<close> passes the test
  \<^verbatim>\<open>if event\<close>; only \<^verbatim>\<open>None\<close> fails it. When a unit is said to be queued and none has been fed,
  the routine stays suspended at the read of line 93.
\<close>

fun escape_loop ::
  "table \<Rightarrow> bool \<Rightarrow> string \<Rightarrow> bool \<Rightarrow> parser \<Rightarrow> input_unit list
     \<Rightarrow> error \<times> parser + event list \<times> parser \<times> input_unit list" where
  "escape_loop tbl has_more_data sequence avail p inp =
     (if avail then
        (case inp of
           [] \<Rightarrow> Inr ([], p, [])
         | u # rest \<Rightarrow>
             (let sequence' = sequence @ [ch u];
                  p1 = debug_log (LogSequence sequence') p;
                  keys = tbl sequence';
                  p2 = debug_log (LogMatched keys) p1
              in case keys of
                   Some ks \<Rightarrow> Inr (map Key ks, p2, rest)
                 | None \<Rightarrow>
                     if re_mouse_event sequence' then
                       (case parse_mouse_code_or_raise sequence' p2 of
                          Inl e \<Rightarrow> Inl (e, p2)
                        | Inr (Some event, p3) \<Rightarrow> Inr ([event], p3, rest)
                        | Inr (None, p3) \<Rightarrow> Inr ([], p3, rest))
                     else escape_loop tbl has_more_data sequence' (buffered u) p2 rest))
      else Inr ([], p, inp))"

declare escape_loop.simps [simp del]

lemma escape_loop_exit:
  "\<not> avail \<Longrightarrow> escape_loop tbl hmd sq avail p inp = Inr ([], p, inp)"
  by (subst escape_loop.simps) simp

lemma escape_loop_eos:
  "escape_loop tbl hmd sq avail p [] = Inr ([], p, [])"
  by (subst escape_loop.simps) simp

lemma escape_loop_hit:
  "avail \<Longrightarrow> tbl (sq @ [ch u]) = Some ks \<Longrightarrow>
   escape_loop tbl hmd sq avail p (u # rest) =
     Inr (map Key ks,
          debug_log (LogMatched (Some ks)) (debug_log (LogSequence (sq @ [ch u])) p), rest)"
  by (subst escape_loop.simps) (simp add: Let_def)

lemma escape_loop_raise:
  "avail \<Longrightarrow> tbl (sq @ [ch u]) = None \<Longrightarrow> re_mouse_event (sq @ [ch u]) \<Longrightarrow>
   parse_mouse_code_raises (sq @ [ch u]) \<Longrightarrow>
   escape_loop tbl hmd sq avail p (u # rest) =
     Inl (ValueError, debug_log (LogMatched None) (debug_log (LogSequence (sq @ [ch u])) p))"
  by (subst escape_loop.simps) (simp add: Let_def parse_mouse_code_or_raise_def)

lemma escape_loop_mouse:
  "avail \<Longrightarrow> tbl (sq @ [ch u]) = None \<Longrightarrow> re_mouse_event (sq @ [ch u]) \<Longrightarrow>
   \<not> parse_mouse_code_raises (sq @ [ch u]) \<Longrightarrow>
   escape_loop tbl hmd sq avail p (u # rest) =
     (case parse_mouse_code (sq @ [ch u])
             (debug_log (LogMatched None) (debug_log (LogSequence (sq @ [ch u])) p)) of
        (Some event, p3) \<Rightarrow> Inr ([event], p3, rest)
      | (None, p3) \<Rightarrow> Inr ([], p3, rest))"
  by (subst escape_loop.simps) (simp add: Let_def parse_mouse_code_or_raise_def)

lemma escape_loop_extend:
  "avail \<Longrightarrow> tbl (sq @ [ch u]) = None \<Longrightarrow> \<not> re_mouse_event (sq @ [ch u]) \<Longrightarrow>
   escape_loop tbl hmd sq avail p (u # rest) =
     escape_loop tbl hmd (sq @ [ch u]) (buffered u)
       (debug_log (LogMatched None) (debug_log (LogSequence (sq @ [ch u])) p)) rest"
  by (subst escape_loop.simps) (simp add: Let_def)

lemma escape_loop_length:
  "escape_loop tbl hmd sq avail p inp = Inr (evs, p', inp') \<Longrightarrow> length inp' \<le> length inp"
proof (induction inp arbitrary: sq avail p)
  case Nil
  then show ?case by (simp add: escape_loop_eos)
next
  case (Cons u rest)
  show ?case
  proof (cases avail)
    case False
    with Cons.prems show ?thesis by (simp add: escape_loop_exit)
  next
    case True
    show ?thesis
    proof (cases "tbl (sq @ [ch u])")
      case (Some ks)
      with True Cons.prems show ?thesis by (simp add: escape_loop_hit)
    next
      case None
      show ?thesis
      proof (cases "re_mouse_event (sq @ [ch u])")
        case m: True
        show ?thesis
        proof (cases "parse_mouse_code_raises (sq @ [ch u])")
          case r: True
          with True None m Cons.prems show ?thesis by (simp add: escape_loop_raise)
        next
          case r: False
          with True None m Cons.prems show ?thesis
            by (auto simp: escape_loop_mouse split: prod.splits option.splits)
        qed
      next
        case m: False
        with True None Cons.prems
        have "escape_loop tbl hmd (sq @ [ch u]) (buffered u)
                (debug_log (LogMatched None) (debug_log (LogSequence (sq @ [ch u])) p)) rest
              = Inr (evs, p', inp')"
          by (simp add: escape_loop_extend)
        from Cons.IH [OF this] show ?thesis by simp
      qed
    qed
  qed
qed

text \<open>
  The outer loop \<^verbatim>\<open>while not self.is_eof\<close>, run on the units fed. The events are listed in
  the order of the calls of \<^verbatim>\<open>on_token\<close>. The head of this function is the state \<^verbatim>\<open>Idle\<close> of
  the specification; when no unit is left the routine stays suspended at the read of line
  85. An exception that leaves the inner loop is not caught: it leaves \<^verbatim>\<open>parse\<close>, and no
  further unit is decoded.
\<close>

function parse :: "table \<Rightarrow> parser \<Rightarrow> input_unit list \<Rightarrow> event list \<times> parser" where
  "parse tbl p [] = ([], p)"
| "parse tbl p (u # rest) =
     (let character = ch u;
          p1 = debug_log (LogCharacter [character]) p;
          has_more_data = more_data u
      in if character = ESC then
           (case escape_loop tbl has_more_data [character] (buffered u) p1 rest of
              Inl (e, p2) \<Rightarrow> ([], p2)
            | Inr (evs, p2, rest') \<Rightarrow>
                (case parse tbl p2 rest' of (evs', p3) \<Rightarrow> (evs @ evs', p3)))
         else
           (let evs = (case tbl [character] of
                         Some keys \<Rightarrow> map Key keys
                       | None \<Rightarrow> [Key [character]])
            in case parse tbl p1 rest of (evs', p3) \<Rightarrow> (evs @ evs', p3)))"
  by pat_completeness auto
termination
  apply (relation "measure (\<lambda>(tbl, p, inp). length inp)")
    apply simp
   apply (auto simp: less_Suc_eq_le dest: escape_loop_length)
  done

declare parse.simps [simp del]

text \<open>
  The end of the stream, for a routine suspended at the read of line 85: the read comes
  back with the empty text, which is not ESC, so lines 109 to 115 look it up and give
  \<^verbatim>\<open>on_token\<close> its mapped keys or a key event that carries it; the test of \<^verbatim>\<open>is_eof\<close> at the head
  of the loop comes only after that and ends the routine.
\<close>

definition end_of_stream :: "table \<Rightarrow> parser \<Rightarrow> event list \<times> parser" where
  "end_of_stream tbl p =
     (let character = [];
          p1 = debug_log (LogCharacter character) p
      in (case tbl character of
            Some keys \<Rightarrow> map Key keys
          | None \<Rightarrow> [Key character],
          p1))"

section \<open>Auxiliary facts\<close>

subsection \<open>Facts about the regular expressions\<close>

lemma not_digit_sep [simp]:
  "\<not> is_digit (CHR '';'')" "\<not> is_digit (CHR ''M'')" "\<not> is_digit (CHR ''m'')"
  by (simp_all add: is_digit_def)

lemma digits1_run:
  "digits ds \<Longrightarrow> \<not> is_digit c \<Longrightarrow> digits1 (ds @ c # r) = Some (ds, c # r)"
  by (cases ds) (auto simp: digits_def digits1_def list_all_iff)

lemma re_sgr_mouse_report:
  assumes "digits b" "digits x" "digits y" "st = CHR ''M'' \<or> st = CHR ''m''"
  shows "re_sgr_mouse (sgr_report b x y st @ rest) = Some (b, x, y, st)"
proof -
  have nd: "\<not> is_digit st" using assms(4) by auto
  have y: "digits1 (y @ st # rest) = Some (y, st # rest)"
    by (rule digits1_run [OF assms(3) nd])
  have x: "digits1 (x @ CHR '';'' # y @ st # rest) = Some (x, CHR '';'' # y @ st # rest)"
    by (rule digits1_run [OF assms(2)]) simp
  have b: "digits1 (b @ CHR '';'' # x @ CHR '';'' # y @ st # rest)
             = Some (b, CHR '';'' # x @ CHR '';'' # y @ st # rest)"
    by (rule digits1_run [OF assms(1)]) simp
  show ?thesis
    using assms(4) by (auto simp add: re_sgr_mouse_def sgr_report_def b x y)
qed





lemma is_digit_or_semi_digits: "digits s \<Longrightarrow> c \<in> set s \<Longrightarrow> is_digit_or_semi c"
  by (simp add: digits_def list_all_iff is_digit_or_semi_def)


subsection \<open>What \<^verbatim>\<open>parse_mouse_code\<close> returns\<close>

lemma parse_mouse_code_report:
  assumes "digits b" "digits x" "digits y" "st = CHR ''M'' \<or> st = CHR ''m''"
  shows "parse_mouse_code (sgr_report b x y st) p =
           (Some (if py_int b AND 64 \<noteq> 0
                  then (if (py_int b + 1) AND 3 = 1 then MouseScrollDown else MouseScrollUp)
                         (py_int x - 1) (py_int y - 1)
                  else (if py_int b AND 32 \<noteq> 0 then MouseMove
                        else if st = CHR ''M'' then MouseDown else MouseUp)
                         (py_int x - 1) (py_int y - 1)
                         (py_int x - 1 - last_x p) (py_int y - 1 - last_y p)
                         ((py_int b + 1) AND 3)
                         (py_int b AND 4 \<noteq> 0) (py_int b AND 8 \<noteq> 0) (py_int b AND 16 \<noteq> 0)
                         (py_int x - 1) (py_int y - 1)),
            p\<lparr>last_x := py_int x - 1, last_y := py_int y - 1\<rparr>)"
proof -
  from re_sgr_mouse_report [OF assms, of "[]"]
  have "re_sgr_mouse (sgr_report b x y st) = Some (b, x, y, st)" by simp
  then show ?thesis by (simp add: parse_mouse_code_def Let_def)
qed




subsection \<open>The debug file does not influence decoding\<close>

lemma debug_log_mouse [simp]:
  "last_x (debug_log l p) = last_x p" "last_y (debug_log l p) = last_y p"
  by (simp_all add: debug_log_def split: option.splits)

lemma same_mouse_refl [simp]: "same_mouse p p"
  by (simp add: same_mouse_def)

lemma same_mouse_debug_log [simp]:
  "same_mouse (debug_log l p) q = same_mouse p q"
  "same_mouse p (debug_log l q) = same_mouse p q"
  by (simp_all add: same_mouse_def)


lemma log_extension_mouse [simp]:
  "last_x (log_extension sq cs p) = last_x p" "last_y (log_extension sq cs p) = last_y p"
  by (induction cs arbitrary: sq p) simp_all

lemma parse_mouse_code_same:
  assumes "same_mouse p q"
  shows "fst (parse_mouse_code code p) = fst (parse_mouse_code code q)"
    and "same_mouse (snd (parse_mouse_code code p)) (snd (parse_mouse_code code q))"
  using assms
  by (auto simp: parse_mouse_code_def same_mouse_def Let_def split: option.splits)

lemma escape_loop_same:
  "same_mouse p q \<Longrightarrow>
   same_escape (escape_loop tbl hmd sq avail p inp) (escape_loop tbl hmd sq avail q inp)"
proof (induction inp arbitrary: sq avail p q)
  case Nil
  then show ?case by (simp add: escape_loop_eos)
next
  case (Cons u rest)
  let ?p = "debug_log (LogMatched None) (debug_log (LogSequence (sq @ [ch u])) p)"
  let ?q = "debug_log (LogMatched None) (debug_log (LogSequence (sq @ [ch u])) q)"
  have s: "same_mouse ?p ?q" using Cons.prems by simp
  show ?case
  proof (cases avail)
    case False
    with Cons.prems show ?thesis by (simp add: escape_loop_exit)
  next
    case True
    show ?thesis
    proof (cases "tbl (sq @ [ch u])")
      case (Some ks)
      with True Cons.prems show ?thesis by (simp add: escape_loop_hit)
    next
      case None
      show ?thesis
      proof (cases "re_mouse_event (sq @ [ch u])")
        case m: True
        show ?thesis
        proof (cases "parse_mouse_code_raises (sq @ [ch u])")
          case r: True
          with True None m s show ?thesis by (simp add: escape_loop_raise)
        next
          case r: False
          from parse_mouse_code_same [OF s, of "sq @ [ch u]"]
          show ?thesis
            using True None m r
            by (cases "parse_mouse_code (sq @ [ch u]) ?p";
                cases "parse_mouse_code (sq @ [ch u]) ?q")
               (auto simp: escape_loop_mouse split: option.splits)
        qed
      next
        case m: False
        from Cons.IH [OF s] True None m show ?thesis
          by (simp add: escape_loop_extend)
      qed
    qed
  qed
qed

lemma parse_esc_raise:
  "ch u = ESC \<Longrightarrow>
   escape_loop tbl (more_data u) [ESC] (buffered u) (debug_log (LogCharacter [ESC]) p) rest
     = Inl (e, p2) \<Longrightarrow>
   parse tbl p (u # rest) = ([], p2)"
  by (simp add: parse.simps Let_def)

lemma parse_esc_return:
  "ch u = ESC \<Longrightarrow>
   escape_loop tbl (more_data u) [ESC] (buffered u) (debug_log (LogCharacter [ESC]) p) rest
     = Inr (evs, p2, rest') \<Longrightarrow>
   parse tbl p (u # rest) = (evs @ fst (parse tbl p2 rest'), snd (parse tbl p2 rest'))"
  by (simp add: parse.simps Let_def split: prod.splits)

lemma parse_plain:
  "ch u \<noteq> ESC \<Longrightarrow>
   parse tbl p (u # rest) =
     ((case tbl [ch u] of Some keys \<Rightarrow> map Key keys | None \<Rightarrow> [Key [ch u]])
        @ fst (parse tbl (debug_log (LogCharacter [ch u]) p) rest),
      snd (parse tbl (debug_log (LogCharacter [ch u]) p) rest))"
  by (simp add: parse.simps Let_def split: prod.splits)

lemma parse_same:
  "same_mouse p q \<Longrightarrow>
   fst (parse tbl p inp) = fst (parse tbl q inp)
   \<and> same_mouse (snd (parse tbl p inp)) (snd (parse tbl q inp))"
proof (induction "length inp" arbitrary: inp p q rule: less_induct)
  case less
  show ?case
  proof (cases inp)
    case Nil
    with less.prems show ?thesis by (simp add: parse.simps)
  next
    case (Cons u rest)
    show ?thesis
    proof (cases "ch u = ESC")
      case False
      have "same_mouse (debug_log (LogCharacter [ch u]) p) (debug_log (LogCharacter [ch u]) q)"
        using less.prems by simp
      from less.hyps [OF _ this, of rest] Cons False show ?thesis
        by (simp add: parse_plain)
    next
      case True
      let ?p = "debug_log (LogCharacter [ESC]) p"
      let ?q = "debug_log (LogCharacter [ESC]) q"
      let ?rp = "escape_loop tbl (more_data u) [ESC] (buffered u) ?p rest"
      let ?rq = "escape_loop tbl (more_data u) [ESC] (buffered u) ?q rest"
      have s: "same_mouse ?p ?q" using less.prems by simp
      note e = escape_loop_same [OF s, of tbl "more_data u" "[ESC]" "buffered u" rest]
      show ?thesis
      proof (cases ?rp)
        case (Inl a)
        obtain x p2 where a: "a = (x, p2)" by (cases a)
        from e Inl a obtain q2 where q: "?rq = Inl (x, q2)" "same_mouse p2 q2"
          by (cases ?rq) auto
        from Inl a q Cons True show ?thesis
          by (simp add: parse_esc_raise)
      next
        case (Inr b)
        obtain evs p2 rest' where b: "b = (evs, p2, rest')" by (cases b)
        from e Inr b obtain q2 where q: "?rq = Inr (evs, q2, rest')" "same_mouse p2 q2"
          by (cases ?rq) auto
        from Inr b have "length rest' \<le> length rest"
          by (auto dest: escape_loop_length)
        with Cons have len: "length rest' < length inp" by simp
        from less.hyps [OF len q(2)] Inr b q Cons True show ?thesis
          by (simp add: parse_esc_return)
      qed
    qed
  qed
qed

subsection \<open>Runs that emit key events only\<close>




subsection \<open>Sequences too short for a conversion to raise\<close>


subsection \<open>Running the inner loop over a sequence\<close>

lemma no_key_take:
  "(\<And>n. 0 < n \<Longrightarrow> n \<le> length cs \<Longrightarrow> tbl (sq @ take n cs) = None) \<Longrightarrow> no_key tbl sq cs"
proof (induction cs arbitrary: sq)
  case Nil
  show ?case by simp
next
  case (Cons c cs)
  from Cons.prems [of 1] have h: "tbl (sq @ [c]) = None" by simp
  have "no_key tbl (sq @ [c]) cs"
  proof (rule Cons.IH)
    fix n assume "0 < n" "n \<le> length cs"
    with Cons.prems [of "Suc n"] show "tbl ((sq @ [c]) @ take n cs) = None" by simp
  qed
  with h show ?case by simp
qed

lemma no_mouse_take:
  "(\<And>n. 0 < n \<Longrightarrow> n \<le> length cs \<Longrightarrow> \<not> re_mouse_event (sq @ take n cs)) \<Longrightarrow> no_mouse sq cs"
proof (induction cs arbitrary: sq)
  case Nil
  show ?case by simp
next
  case (Cons c cs)
  from Cons.prems [of 1] have h: "\<not> re_mouse_event (sq @ [c])" by simp
  have "no_mouse (sq @ [c]) cs"
  proof (rule Cons.IH)
    fix n assume "0 < n" "n \<le> length cs"
    with Cons.prems [of "Suc n"] show "\<not> re_mouse_event ((sq @ [c]) @ take n cs)" by simp
  qed
  with h show ?case by simp
qed

lemma no_key_prefixes:
  assumes "\<And>n. 2 \<le> n \<Longrightarrow> n \<le> Suc (length cs) \<Longrightarrow> tbl (take n (e # cs @ ds)) = None"
  shows "no_key tbl [e] cs"
proof (rule no_key_take)
  fix n assume "0 < n" "n \<le> length cs"
  with assms [of "Suc n"] show "tbl ([e] @ take n cs) = None" by simp
qed

lemma no_mouse_prefixes:
  assumes "\<And>n. 2 \<le> n \<Longrightarrow> n \<le> Suc (length cs) \<Longrightarrow> \<not> re_mouse_event (take n (e # cs @ ds))"
  shows "no_mouse [e] cs"
proof (rule no_mouse_take)
  fix n assume "0 < n" "n \<le> length cs"
  with assms [of "Suc n"] show "\<not> re_mouse_event ([e] @ take n cs)" by simp
qed

lemma escape_loop_run:
  "us \<noteq> [] \<longrightarrow> avail \<and> list_all buffered (butlast us) \<Longrightarrow>
   no_key tbl sq (map ch us) \<Longrightarrow> no_mouse sq (map ch us) \<Longrightarrow>
   escape_loop tbl hmd sq avail p (us @ rest) =
     escape_loop tbl hmd (sq @ map ch us) (if us = [] then avail else buffered (last us))
       (log_extension sq (map ch us) p) rest"
proof (induction us arbitrary: sq avail p)
  case Nil
  show ?case by simp
next
  case (Cons u us)
  from Cons.prems have a: avail by simp
  from Cons.prems have n: "tbl (sq @ [ch u]) = None" "\<not> re_mouse_event (sq @ [ch u])"
    and k: "no_key tbl (sq @ [ch u]) (map ch us)" "no_mouse (sq @ [ch u]) (map ch us)"
    by simp_all
  from Cons.prems(1) have b: "us \<noteq> [] \<longrightarrow> buffered u \<and> list_all buffered (butlast us)"
    by auto
  have "escape_loop tbl hmd sq avail p ((u # us) @ rest) =
        escape_loop tbl hmd (sq @ [ch u]) (buffered u)
          (debug_log (LogMatched None) (debug_log (LogSequence (sq @ [ch u])) p)) (us @ rest)"
    using a n by (simp add: escape_loop_extend)
  also have "\<dots> = escape_loop tbl hmd ((sq @ [ch u]) @ map ch us)
                     (if us = [] then buffered u else buffered (last us))
                     (log_extension (sq @ [ch u]) (map ch us)
                        (debug_log (LogMatched None) (debug_log (LogSequence (sq @ [ch u])) p)))
                     rest"
    by (rule Cons.IH [OF b k])
  finally show ?case by simp
qed

lemma arrives_whole_split:
  assumes "arrives_whole (u # us' @ [v])"
  shows "us' \<noteq> [] \<longrightarrow> buffered u \<and> list_all buffered (butlast us')"
    and "if us' = [] then buffered u else buffered (last us')"
  using assms
  by (auto simp: arrives_whole_def butlast_append list_all_iff dest: in_set_butlastD)

lemma units_split:
  assumes "map ch us = e # cs @ [c]"
  obtains u us' v where "us = u # us' @ [v]" "ch u = e" "map ch us' = cs" "ch v = c"
proof -
  from assms obtain u ut where u: "us = u # ut" "ch u = e" "map ch ut = cs @ [c]"
    by (auto simp: map_eq_Cons_conv)
  from u(3) obtain us' vs where v: "ut = us' @ vs" "map ch us' = cs" "map ch vs = [c]"
    by (auto simp: map_eq_append_conv)
  from v(3) obtain v where "vs = [v]" "ch v = c" by (auto simp: map_eq_Cons_conv)
  with u v that show thesis by simp
qed

lemma parse_escape_hit:
  assumes "map ch us = ESC # cs @ [c]" "arrives_whole us"
    and "no_key tbl [ESC] cs" "no_mouse [ESC] cs" "tbl (ESC # cs @ [c]) = Some ks"
  shows "fst (parse tbl p (us @ rest)) = map Key ks @ fst (parse tbl p rest)
       \<and> same_mouse (snd (parse tbl p (us @ rest))) (snd (parse tbl p rest))"
proof -
  from assms(1) obtain u us' v
    where us: "us = u # us' @ [v]" "ch u = ESC" "map ch us' = cs" "ch v = c"
    by (rule units_split)
  let ?p1 = "debug_log (LogCharacter [ESC]) p"
  let ?p2 = "log_extension [ESC] cs ?p1"
  let ?p3 = "debug_log (LogMatched (Some ks)) (debug_log (LogSequence (ESC # cs @ [c])) ?p2)"
  from assms(2) us(1) have w: "arrives_whole (u # us' @ [v])" by simp
  note m = arrives_whole_split [OF w]
  have "escape_loop tbl (more_data u) [ESC] (buffered u) ?p1 (us' @ v # rest) =
        escape_loop tbl (more_data u) ([ESC] @ map ch us')
          (if us' = [] then buffered u else buffered (last us'))
          (log_extension [ESC] (map ch us') ?p1) (v # rest)"
    using assms(3,4) us(3) m(1) by (intro escape_loop_run) simp_all
  also have "\<dots> = Inr (map Key ks, ?p3, rest)"
    using assms(5) us(3,4) m(2) by (simp add: escape_loop_hit)
  finally have e: "escape_loop tbl (more_data u) [ESC] (buffered u) ?p1 (us' @ v # rest)
                     = Inr (map Key ks, ?p3, rest)" .
  have "same_mouse ?p3 p" by (simp add: same_mouse_def)
  from parse_same [OF this, of tbl rest] us(1,2) show ?thesis
    by (simp add: parse_esc_return [OF us(2) e])
qed

lemma parse_escape_mouse:
  assumes "map ch us = ESC # cs @ [c]" "arrives_whole us"
    and "no_key tbl [ESC] cs" "no_mouse [ESC] cs"
    and "tbl (ESC # cs @ [c]) = None" "re_mouse_event (ESC # cs @ [c])"
    and "\<not> parse_mouse_code_raises (ESC # cs @ [c])"
    and "parse_mouse_code (ESC # cs @ [c]) p = (Some event, p')"
  shows "fst (parse tbl p (us @ rest)) = event # fst (parse tbl p' rest)
       \<and> same_mouse (snd (parse tbl p (us @ rest))) (snd (parse tbl p' rest))"
proof -
  from assms(1) obtain u us' v
    where us: "us = u # us' @ [v]" "ch u = ESC" "map ch us' = cs" "ch v = c"
    by (rule units_split)
  let ?p1 = "debug_log (LogCharacter [ESC]) p"
  let ?p2 = "log_extension [ESC] cs ?p1"
  let ?p3 = "debug_log (LogMatched None) (debug_log (LogSequence (ESC # cs @ [c])) ?p2)"
  let ?m = "parse_mouse_code (ESC # cs @ [c]) ?p3"
  from assms(2) us(1) have w: "arrives_whole (u # us' @ [v])" by simp
  note m = arrives_whole_split [OF w]
  have s: "same_mouse ?p3 p" by (simp add: same_mouse_def)
  from parse_mouse_code_same [OF s, of "ESC # cs @ [c]"] assms(8)
  have f: "fst ?m = Some event" and g: "same_mouse (snd ?m) p'" by simp_all
  have "escape_loop tbl (more_data u) [ESC] (buffered u) ?p1 (us' @ v # rest) =
        escape_loop tbl (more_data u) ([ESC] @ map ch us')
          (if us' = [] then buffered u else buffered (last us'))
          (log_extension [ESC] (map ch us') ?p1) (v # rest)"
    using assms(3,4) us(3) m(1) by (intro escape_loop_run) simp_all
  also have "\<dots> = Inr ([event], snd ?m, rest)"
    using assms(5,6,7) us(3,4) m(2) f
    by (cases ?m) (simp add: escape_loop_mouse)
  finally have e: "escape_loop tbl (more_data u) [ESC] (buffered u) ?p1 (us' @ v # rest)
      = Inr ([event], snd ?m, rest)" .
  from parse_same [OF g, of tbl rest] us(1,2) show ?thesis
    by (simp add: parse_esc_return [OF us(2) e])
qed

subsection \<open>Evaluation on concrete inputs\<close>

lemmas eval_simps =
  ESC_def NL_def is_digit_def is_digit_or_semi_def digit_value_def py_int_def digits1_def
  re_sgr_mouse_def mouse_alt_sgr_def mouse_alt_x10_def re_mouse_event_def
  init_def debug_log_def parse_mouse_code_def Let_def digits_def sgr_report_def same_mouse_def
  int_raises_def parse_mouse_code_raises_def parse_mouse_code_or_raise_def end_of_stream_def
  escape_loop.simps parse.simps

lemma no_mouse_report_1: "no_mouse [ESC] ''[<0;11;21''"
  by (simp add: eval_simps)

lemma no_mouse_report_2: "no_mouse [ESC] ''[<0;12;21''"
  by (simp add: eval_simps)




section \<open>Properties of the decoder\<close>

subsection \<open>Wheel reports\<close>

text \<open>
  Claim C1, as the code has it. For every SGR report whose button field has bit \<^verbatim>\<open>0x40\<close> set
  the decoder returns a wheel event at the decoded column and row, whose direction is given
  by the masked button \<^verbatim>\<open>(B + 1) & 3\<close>: \<^verbatim>\<open>MouseScrollDown\<close> when it is 1 and
  \<^verbatim>\<open>MouseScrollUp\<close> otherwise.
\<close>

theorem wheel_direction:
  assumes "digits b" "digits x" "digits y" "st = CHR ''M'' \<or> st = CHR ''m''"
    and "py_int b AND 64 \<noteq> 0"
  shows "fst (parse_mouse_code (sgr_report b x y st) p) =
           Some ((if (py_int b + 1) AND 3 = 1 then MouseScrollDown else MouseScrollUp)
                   (py_int x - 1) (py_int y - 1))"
  using assms(5) by (simp add: parse_mouse_code_report [OF assms(1-4)])

theorem wheel_direction_witness:
  "digits ''64'' \<and> digits ''65'' \<and> digits ''5''
   \<and> py_int ''64'' AND 64 \<noteq> 0 \<and> py_int ''65'' AND 64 \<noteq> 0
   \<and> fst (parse_mouse_code (ESC # ''[<64;5;5M'') (init False)) = Some (MouseScrollDown 4 4)
   \<and> fst (parse_mouse_code (ESC # ''[<65;5;5M'') (init False)) = Some (MouseScrollUp 4 4)"
  using wheel_direction [of "''64''" "''5''" "''5''" "CHR ''M''" "init False"]
        wheel_direction [of "''65''" "''5''" "''5''" "CHR ''M''" "init False"]
  by (simp add: digits_def is_digit_def py_int_def digit_value_def sgr_report_def)

text \<open>
  The report \<^verbatim>\<open>ESC [ < 64 ; 5 ; 5 M\<close> is not decoded to a \<^verbatim>\<open>MouseScrollUp\<close> event.
\<close>

theorem wheel_direction_counterexample:
  "\<not> (\<exists>c r. fst (parse_mouse_code (ESC # ''[<64;5;5M'') (init False))
               = Some (MouseScrollUp c r))"
  by (simp add: eval_simps)

subsection \<open>Two reports in a row\<close>

text \<open>
  Claim C2, as the code has it. Let the table have no key among the prefixes of two or more
  characters of the two reports, and let each report arrive in one piece, every unit but
  the last with the next one already queued. A parser just created, fed
  \<^verbatim>\<open>ESC [ < 0 ; 11 ; 21 M\<close> and then \<^verbatim>\<open>ESC [ < 0 ; 12 ; 21 m\<close>, emits a \<^verbatim>\<open>MouseDown\<close> at column 10,
  row 20 with deltas 10 and 20, then a \<^verbatim>\<open>MouseUp\<close> at column 11, row 20 with deltas 1 and 0.
  Both carry the button \<^verbatim>\<open>(0 + 1) & 3 = 1\<close> and no modifier.
\<close>

theorem sgr_round_trip:
  assumes "map ch us1 = ESC # ''[<0;11;21M''" and "arrives_whole us1"
    and "map ch us2 = ESC # ''[<0;12;21m''" and "arrives_whole us2"
    and "\<forall>n. 2 \<le> n \<longrightarrow> tbl (take n (ESC # ''[<0;11;21M'')) = None
                      \<and> tbl (take n (ESC # ''[<0;12;21m'')) = None"
  shows "fst (parse tbl (init debug) (us1 @ us2)) =
           [MouseDown 10 20 10 20 1 False False False 10 20,
            MouseUp 11 20 1 0 1 False False False 11 20]"
proof -
  let ?p1 = "(init debug)\<lparr>last_x := 10, last_y := 20\<rparr>"
  let ?p2 = "(init debug)\<lparr>last_x := 11, last_y := 20\<rparr>"
  have k1: "no_key tbl [ESC] ''[<0;11;21''"
    using assms(5) by (intro no_key_prefixes [where ds = "''M''"]) simp
  have k2: "no_key tbl [ESC] ''[<0;12;21''"
    using assms(5) by (intro no_key_prefixes [where ds = "''m''"]) simp
  from assms(5) [rule_format, of 11]
  have t1: "tbl (ESC # ''[<0;11;21'' @ ''M'') = None"
    and t2: "tbl (ESC # ''[<0;12;21'' @ ''m'') = None" by simp_all
  have r1: "re_mouse_event (ESC # ''[<0;11;21'' @ ''M'')"
    and r2: "re_mouse_event (ESC # ''[<0;12;21'' @ ''m'')"
    by (simp_all add: eval_simps)
  have n1: "\<not> parse_mouse_code_raises (ESC # ''[<0;11;21'' @ ''M'')"
    and n2: "\<not> parse_mouse_code_raises (ESC # ''[<0;12;21'' @ ''m'')"
    by (simp_all add: eval_simps)
  have m1: "parse_mouse_code (ESC # ''[<0;11;21'' @ ''M'') (init debug) =
              (Some (MouseDown 10 20 10 20 1 False False False 10 20), ?p1)"
    by (simp add: eval_simps)
  have m2: "parse_mouse_code (ESC # ''[<0;12;21'' @ ''m'') ?p1 =
              (Some (MouseUp 11 20 1 0 1 False False False 11 20), ?p2)"
    by (simp add: eval_simps)
  from assms(1) have u1: "map ch us1 = ESC # ''[<0;11;21'' @ ''M''" by simp
  from assms(3) have u2: "map ch us2 = ESC # ''[<0;12;21'' @ ''m''" by simp
  from parse_escape_mouse [OF u1 assms(2) k1 no_mouse_report_1 t1 r1 n1 m1, of us2]
  have a: "fst (parse tbl (init debug) (us1 @ us2)) =
             MouseDown 10 20 10 20 1 False False False 10 20 # fst (parse tbl ?p1 us2)"
    by simp
  from parse_escape_mouse [OF u2 assms(4) k2 no_mouse_report_2 t2 r2 n2 m2, of "[]"]
  have b: "fst (parse tbl ?p1 us2) = [MouseUp 11 20 1 0 1 False False False 11 20]"
    by (simp add: parse.simps(1))
  from a b show ?thesis by simp
qed

theorem sgr_round_trip_witness:
  "arrives_whole (map (\<lambda>c. \<lparr>ch = c, buffered = True, more_data = False\<rparr>) (ESC # ''[<0;11;21M''))
   \<and> arrives_whole (map (\<lambda>c. \<lparr>ch = c, buffered = True, more_data = True\<rparr>) (ESC # ''[<0;12;21m''))
   \<and> fst (parse [ESC # ''[A'' \<mapsto> [''up'']] (init False)
          (map (\<lambda>c. \<lparr>ch = c, buffered = True, more_data = False\<rparr>) (ESC # ''[<0;11;21M'')
           @ map (\<lambda>c. \<lparr>ch = c, buffered = True, more_data = True\<rparr>) (ESC # ''[<0;12;21m'')))
       = [MouseDown 10 20 10 20 1 False False False 10 20,
          MouseUp 11 20 1 0 1 False False False 11 20]"
proof -
  let ?us1 = "map (\<lambda>c. \<lparr>ch = c, buffered = True, more_data = False\<rparr>) (ESC # ''[<0;11;21M'')"
  let ?us2 = "map (\<lambda>c. \<lparr>ch = c, buffered = True, more_data = True\<rparr>) (ESC # ''[<0;12;21m'')"
  let ?tbl = "[ESC # ''[A'' \<mapsto> [''up'']]"
  have 1: "map ch ?us1 = ESC # ''[<0;11;21M''" by simp
  have 2: "arrives_whole ?us1" by (simp add: arrives_whole_def)
  have 3: "map ch ?us2 = ESC # ''[<0;12;21m''" by simp
  have 4: "arrives_whole ?us2" by (simp add: arrives_whole_def)
  have 5: "\<forall>n. 2 \<le> n \<longrightarrow> ?tbl (take n (ESC # ''[<0;11;21M'')) = None
                      \<and> ?tbl (take n (ESC # ''[<0;12;21m'')) = None"
    by (auto simp: take_Cons' ESC_def)
  from sgr_round_trip [where tbl = ?tbl and ?us1.0 = ?us1 and ?us2.0 = ?us2 and debug = False,
                       OF 1 2 3 4 5] 2 4
  show ?thesis by simp
qed

text \<open>
  The first event does not carry the button identity 0.
\<close>

theorem sgr_round_trip_counterexample:
  "\<not> (\<exists>shift meta ctrl sx sy.
        fst (parse Map.empty (init False)
               (map (\<lambda>c. \<lparr>ch = c, buffered = True, more_data = False\<rparr>) (ESC # ''[<0;11;21M'')))
          = [MouseDown 10 20 10 20 0 shift meta ctrl sx sy])"
  by (simp add: eval_simps)

subsection \<open>What an event carries\<close>

text \<open>
  Claim C3, as the code has it. A button or motion event (\<^verbatim>\<open>MouseDown\<close>, \<^verbatim>\<open>MouseUp\<close>,
  \<^verbatim>\<open>MouseMove\<close>) is built from the column, the row, both deltas against the last position,
  the masked button and the three modifier flags. A wheel event (\<^verbatim>\<open>MouseScrollDown\<close>,
  \<^verbatim>\<open>MouseScrollUp\<close>) is built from the column and the row only.
\<close>

theorem mouse_event_fields:
  assumes "digits b" "digits x" "digits y" "st = CHR ''M'' \<or> st = CHR ''m''"
  shows "(py_int b AND 64 = 0 \<longrightarrow>
            fst (parse_mouse_code (sgr_report b x y st) p) =
              Some ((if py_int b AND 32 \<noteq> 0 then MouseMove
                     else if st = CHR ''M'' then MouseDown else MouseUp)
                      (py_int x - 1) (py_int y - 1)
                      (py_int x - 1 - last_x p) (py_int y - 1 - last_y p)
                      ((py_int b + 1) AND 3)
                      (py_int b AND 4 \<noteq> 0) (py_int b AND 8 \<noteq> 0) (py_int b AND 16 \<noteq> 0)
                      (py_int x - 1) (py_int y - 1)))
         \<and> (py_int b AND 64 \<noteq> 0 \<longrightarrow>
            fst (parse_mouse_code (sgr_report b x y st) p)
              \<in> {Some (MouseScrollDown (py_int x - 1) (py_int y - 1)),
                 Some (MouseScrollUp (py_int x - 1) (py_int y - 1))})"
  by (simp add: parse_mouse_code_report [OF assms])

theorem mouse_event_fields_witness:
  "digits ''28'' \<and> digits ''11'' \<and> digits ''21'' \<and> digits ''92''
   \<and> py_int ''28'' AND 64 = 0 \<and> py_int ''92'' AND 64 \<noteq> 0
   \<and> fst (parse_mouse_code (ESC # ''[<28;11;21m'')
             \<lparr>last_x = 7, last_y = 9, debug_log_file = None\<rparr>)
       = Some (MouseUp 10 20 3 11 1 True True True 10 20)
   \<and> fst (parse_mouse_code (ESC # ''[<92;11;21m'')
             \<lparr>last_x = 7, last_y = 9, debug_log_file = None\<rparr>)
       \<in> {Some (MouseScrollDown 10 20), Some (MouseScrollUp 10 20)}"
  using mouse_event_fields [of "''28''" "''11''" "''21''" "CHR ''m''"
                               "\<lparr>last_x = 7, last_y = 9, debug_log_file = None\<rparr>"]
        mouse_event_fields [of "''92''" "''11''" "''21''" "CHR ''m''"
                               "\<lparr>last_x = 7, last_y = 9, debug_log_file = None\<rparr>"]
  by (simp add: digits_def is_digit_def py_int_def digit_value_def sgr_report_def)

text \<open>
  Two wheel reports that differ in the modifier bits and in the last position, hence in both
  deltas, are decoded to the same event; so are two that differ in the masked button.
\<close>

theorem mouse_event_fields_counterexample:
  "fst (parse_mouse_code (ESC # ''[<64;5;5M'') \<lparr>last_x = 0, last_y = 0, debug_log_file = None\<rparr>)
     = Some (MouseScrollDown 4 4)
   \<and> fst (parse_mouse_code (ESC # ''[<92;5;5M'')
             \<lparr>last_x = 3, last_y = 1, debug_log_file = None\<rparr>)
     = Some (MouseScrollDown 4 4)
   \<and> fst (parse_mouse_code (ESC # ''[<65;5;5M'')
             \<lparr>last_x = 0, last_y = 0, debug_log_file = None\<rparr>)
     = Some (MouseScrollUp 4 4)
   \<and> fst (parse_mouse_code (ESC # ''[<66;5;5M'')
             \<lparr>last_x = 0, last_y = 0, debug_log_file = None\<rparr>)
     = Some (MouseScrollUp 4 4)"
  by (simp add: eval_simps)

subsection \<open>The head of the inner loop\<close>

text \<open>
  Claim C4. The flag \<^verbatim>\<open>has_more_data\<close> does not take part in the test at the head of the
  inner loop. With nothing queued and the flag set, the loop is left without a read, and
  the characters of the sequence that arrive afterwards are decoded on their own: after an
  ESC with more data expected and nothing queued, \<^verbatim>\<open>[\<close> and \<^verbatim>\<open>A\<close> give two key events although
  \<^verbatim>\<open>ESC [ A\<close> is a key of the table.
\<close>

theorem more_data_not_tested:
  "escape_loop [ESC # ''[A'' \<mapsto> [''up'']] True [ESC] False (init False)
      [\<lparr>ch = CHR ''['', buffered = False, more_data = True\<rparr>,
       \<lparr>ch = CHR ''A'', buffered = False, more_data = False\<rparr>]
    = Inr ([], init False,
           [\<lparr>ch = CHR ''['', buffered = False, more_data = True\<rparr>,
            \<lparr>ch = CHR ''A'', buffered = False, more_data = False\<rparr>])
   \<and> fst (parse [ESC # ''[A'' \<mapsto> [''up'']] (init False)
            [\<lparr>ch = ESC, buffered = False, more_data = True\<rparr>,
             \<lparr>ch = CHR ''['', buffered = False, more_data = True\<rparr>,
             \<lparr>ch = CHR ''A'', buffered = False, more_data = False\<rparr>])
       = [Key ''['', Key ''A'']"
  by (simp add: eval_simps)

subsection \<open>Keys of the table\<close>

text \<open>
  Claim C5, as the code has it. Let a key of the table be a single character other than
  ESC, or ESC followed by at least one character such that no proper prefix of two or more
  characters is a key of the table or is matched by the mouse pattern. Feeding exactly the
  characters of the key, every one but the last with the next one already queued, emits the
  mapped key events in the order of the table, after which decoding goes on at the head of
  the outer loop with the same last mouse position.
\<close>

theorem table_key_decoded:
  assumes "tbl k = Some keys"
    and "map ch us = k"
    and "list_all buffered (butlast us)"
    and "(length k = 1 \<and> hd k \<noteq> ESC)
         \<or> (2 \<le> length k \<and> hd k = ESC
            \<and> (\<forall>n. 2 \<le> n \<and> n < length k \<longrightarrow>
                    tbl (take n k) = None \<and> \<not> re_mouse_event (take n k)))"
  shows "fst (parse tbl p (us @ rest)) = map Key keys @ fst (parse tbl p rest)
       \<and> same_mouse (snd (parse tbl p (us @ rest))) (snd (parse tbl p rest))"
  using assms(4)
proof (elim disjE conjE)
  assume a: "length k = 1" "hd k \<noteq> ESC"
  from a(1) assms(2) obtain u where u: "us = [u]" "k = [ch u]"
    by (cases us) auto
  have "same_mouse (debug_log (LogCharacter [ch u]) p) p" by (simp add: same_mouse_def)
  from parse_same [OF this, of tbl rest] u a(2) assms(1) show ?thesis
    by (simp add: parse_plain)
next
  assume a: "2 \<le> length k" "hd k = ESC"
    and b: "\<forall>n. 2 \<le> n \<and> n < length k \<longrightarrow> tbl (take n k) = None \<and> \<not> re_mouse_event (take n k)"
  from a obtain t where t: "k = ESC # t" "t \<noteq> []" by (cases k; cases "tl k") auto
  define cs c where "cs = butlast t" and "c = last t"
  with t have k: "k = ESC # cs @ [c]" by simp
  have nk: "no_key tbl [ESC] cs"
  proof (rule no_key_prefixes [where ds = "[c]"])
    fix n assume "2 \<le> n" "n \<le> Suc (length cs)"
    with b k show "tbl (take n (ESC # cs @ [c])) = None" by simp
  qed
  have nm: "no_mouse [ESC] cs"
  proof (rule no_mouse_prefixes [where ds = "[c]"])
    fix n assume "2 \<le> n" "n \<le> Suc (length cs)"
    with b k show "\<not> re_mouse_event (take n (ESC # cs @ [c]))" by simp
  qed
  from assms(2) k have "us \<noteq> []" by auto
  with assms(3) have md: "arrives_whole us" by (simp add: arrives_whole_def)
  from assms(1,2) k have "map ch us = ESC # cs @ [c]" "tbl (ESC # cs @ [c]) = Some keys"
    by simp_all
  from parse_escape_hit [OF this(1) md nk nm this(2)] show ?thesis .
qed

theorem table_key_decoded_witness:
  "fst (parse [ESC # ''[A'' \<mapsto> [''up''], ''a'' \<mapsto> [''x'', ''y'']] (init False)
          [\<lparr>ch = ESC, buffered = True, more_data = True\<rparr>,
           \<lparr>ch = CHR ''['', buffered = True, more_data = True\<rparr>,
           \<lparr>ch = CHR ''A'', buffered = False, more_data = False\<rparr>]) = [Key ''up'']
   \<and> fst (parse [ESC # ''[A'' \<mapsto> [''up''], ''a'' \<mapsto> [''x'', ''y'']] (init False)
          [\<lparr>ch = CHR ''a'', buffered = False, more_data = False\<rparr>]) = [Key ''x'', Key ''y'']"
proof -
  let ?tbl = "[ESC # ''[A'' \<mapsto> [''up''], ''a'' \<mapsto> [''x'', ''y'']]"
  let ?us = "[\<lparr>ch = ESC, buffered = True, more_data = True\<rparr>,
              \<lparr>ch = CHR ''['', buffered = True, more_data = True\<rparr>,
              \<lparr>ch = CHR ''A'', buffered = False, more_data = False\<rparr>]"
  let ?vs = "[\<lparr>ch = CHR ''a'', buffered = False, more_data = False\<rparr>]"
  have 1: "?tbl (ESC # ''[A'') = Some [''up'']" by (simp add: ESC_def)
  have 2: "map ch ?us = ESC # ''[A''" by simp
  have 3: "list_all buffered (butlast ?us)" by simp
  have "\<forall>n. 2 \<le> n \<and> n < length (ESC # ''[A'') \<longrightarrow>
          ?tbl (take n (ESC # ''[A'')) = None \<and> \<not> re_mouse_event (take n (ESC # ''[A''))"
  proof (intro allI impI)
    fix n :: nat assume "2 \<le> n \<and> n < length (ESC # ''[A'')"
    then have "n = 2" by simp
    then show "?tbl (take n (ESC # ''[A'')) = None \<and> \<not> re_mouse_event (take n (ESC # ''[A''))"
      by (simp add: eval_simps)
  qed
  then have 4: "(length (ESC # ''[A'') = 1 \<and> hd (ESC # ''[A'') \<noteq> ESC)
         \<or> (2 \<le> length (ESC # ''[A'') \<and> hd (ESC # ''[A'') = ESC
            \<and> (\<forall>n. 2 \<le> n \<and> n < length (ESC # ''[A'') \<longrightarrow>
                    ?tbl (take n (ESC # ''[A'')) = None
                    \<and> \<not> re_mouse_event (take n (ESC # ''[A''))))"
    by simp
  have 5: "?tbl ''a'' = Some [''x'', ''y'']" by (simp add: ESC_def)
  have 6: "map ch ?vs = ''a''" by simp
  have 7: "list_all buffered (butlast ?vs)" by simp
  have 8: "(length ''a'' = 1 \<and> hd ''a'' \<noteq> ESC)
         \<or> (2 \<le> length ''a'' \<and> hd ''a'' = ESC
            \<and> (\<forall>n. 2 \<le> n \<and> n < length ''a'' \<longrightarrow>
                    ?tbl (take n ''a'') = None \<and> \<not> re_mouse_event (take n ''a'')))"
    by (simp add: ESC_def)
  from table_key_decoded [where tbl = ?tbl and k = "ESC # ''[A''" and us = ?us
                             and p = "init False" and rest = "[]", OF 1 2 3 4]
       table_key_decoded [where tbl = ?tbl and k = "''a''" and us = ?vs
                             and p = "init False" and rest = "[]", OF 5 6 7 8]
  show ?thesis by (simp add: parse.simps(1))
qed

text \<open>
  Four tables with a key that is not decoded to its mapped key events when exactly its
  characters are fed with more data expected after every character but the last: the key
  ESC alone; a key of two characters that does not start with ESC; a key one of whose proper
  prefixes is a key; a key one of whose proper prefixes is matched by the mouse pattern.
\<close>

theorem table_key_decoded_counterexample:
  "fst (parse [[ESC] \<mapsto> [''escape'']] (init False)
          [\<lparr>ch = ESC, buffered = False, more_data = False\<rparr>]) = []
   \<and> fst (parse [''ab'' \<mapsto> [''x'']] (init False)
          [\<lparr>ch = CHR ''a'', buffered = True, more_data = True\<rparr>,
           \<lparr>ch = CHR ''b'', buffered = False, more_data = False\<rparr>]) = [Key ''a'', Key ''b'']
   \<and> fst (parse [ESC # ''O'' \<mapsto> [''o''], ESC # ''OP'' \<mapsto> [''f1'']] (init False)
          [\<lparr>ch = ESC, buffered = True, more_data = True\<rparr>,
           \<lparr>ch = CHR ''O'', buffered = True, more_data = True\<rparr>,
           \<lparr>ch = CHR ''P'', buffered = False, more_data = False\<rparr>]) = [Key ''o'', Key ''P'']
   \<and> fst (parse [ESC # ''[1M~'' \<mapsto> [''x'']] (init False)
          [\<lparr>ch = ESC, buffered = True, more_data = True\<rparr>,
           \<lparr>ch = CHR ''['', buffered = True, more_data = True\<rparr>,
           \<lparr>ch = CHR ''1'', buffered = True, more_data = True\<rparr>,
           \<lparr>ch = CHR ''M'', buffered = True, more_data = True\<rparr>,
           \<lparr>ch = CHR ''~'', buffered = False, more_data = False\<rparr>]) = [Key ''~'']"
  by (simp add: eval_simps)

subsection \<open>Table hits come first\<close>

text \<open>
  Claim C6. When the accumulated sequence is a key of the table, the inner loop emits the
  mapped key events and ends; \<^verbatim>\<open>parse_mouse_code\<close> is not called, so the last mouse
  position is unchanged, also when the sequence has the shape of a mouse report. Hence a
  key that arrives in one piece, with no table hit or mouse match on a proper prefix, is
  decoded to its key events whether or not the mouse pattern matches it.
\<close>

theorem table_hit_precedence:
  "(avail \<and> tbl (sequence @ [ch u]) = Some keys \<longrightarrow>
      escape_loop tbl has_more_data sequence avail p (u # rest) =
        Inr (map Key keys,
             debug_log (LogMatched (Some keys)) (debug_log (LogSequence (sequence @ [ch u])) p),
             rest)
      \<and> same_mouse
          (debug_log (LogMatched (Some keys)) (debug_log (LogSequence (sequence @ [ch u])) p)) p)
   \<and> (map ch us = ESC # cs @ [c] \<and> arrives_whole us \<and> no_key tbl [ESC] cs
       \<and> no_mouse [ESC] cs \<and> tbl (ESC # cs @ [c]) = Some keys \<longrightarrow>
      fst (parse tbl p (us @ rest)) = map Key keys @ fst (parse tbl p rest)
      \<and> same_mouse (snd (parse tbl p (us @ rest))) (snd (parse tbl p rest)))"
proof (intro conjI impI)
  assume a: "avail \<and> tbl (sequence @ [ch u]) = Some keys"
  then show "escape_loop tbl has_more_data sequence avail p (u # rest) =
        Inr (map Key keys,
             debug_log (LogMatched (Some keys)) (debug_log (LogSequence (sequence @ [ch u])) p),
             rest)"
    by (simp add: escape_loop_hit)
  show "same_mouse
          (debug_log (LogMatched (Some keys)) (debug_log (LogSequence (sequence @ [ch u])) p)) p"
    by simp
next
  assume a: "map ch us = ESC # cs @ [c] \<and> arrives_whole us \<and> no_key tbl [ESC] cs
       \<and> no_mouse [ESC] cs \<and> tbl (ESC # cs @ [c]) = Some keys"
  then have "fst (parse tbl p (us @ rest)) = map Key keys @ fst (parse tbl p rest)
      \<and> same_mouse (snd (parse tbl p (us @ rest))) (snd (parse tbl p rest))"
    by (intro parse_escape_hit [where cs = cs and c = c]) simp_all
  then show "fst (parse tbl p (us @ rest)) = map Key keys @ fst (parse tbl p rest)"
    and "same_mouse (snd (parse tbl p (us @ rest))) (snd (parse tbl p rest))"
    by simp_all
qed

theorem table_hit_precedence_witness:
  "re_mouse_event (ESC # ''[<0;11;21M'')
   \<and> re_sgr_mouse (ESC # ''[<0;11;21M'') \<noteq> None
   \<and> escape_loop [ESC # ''[<0;11;21M'' \<mapsto> [''f1'', ''f2'']] False (ESC # ''[<0;11;21'') True
         (init False) [\<lparr>ch = CHR ''M'', buffered = False, more_data = False\<rparr>]
       = Inr ([Key ''f1'', Key ''f2''], init False, [])
   \<and> arrives_whole (map (\<lambda>c. \<lparr>ch = c, buffered = True, more_data = False\<rparr>)
                        (ESC # ''[<0;11;21M''))
   \<and> no_key [ESC # ''[<0;11;21M'' \<mapsto> [''f1'', ''f2'']] [ESC] ''[<0;11;21''
   \<and> no_mouse [ESC] ''[<0;11;21''
   \<and> parse [ESC # ''[<0;11;21M'' \<mapsto> [''f1'', ''f2'']] (init False)
         (map (\<lambda>c. \<lparr>ch = c, buffered = True, more_data = False\<rparr>) (ESC # ''[<0;11;21M''))
       = ([Key ''f1'', Key ''f2''], init False)"
  using table_hit_precedence
          [where avail = True and has_more_data = False
             and tbl = "[ESC # ''[<0;11;21M'' \<mapsto> [''f1'', ''f2'']]"
             and sequence = "ESC # ''[<0;11;21''"
             and u = "\<lparr>ch = CHR ''M'', buffered = False, more_data = False\<rparr>"
             and keys = "[''f1'', ''f2'']" and p = "init False" and rest = "[]"
             and us = "map (\<lambda>c. \<lparr>ch = c, buffered = True, more_data = False\<rparr>)
                         (ESC # ''[<0;11;21M'')"
             and cs = "''[<0;11;21''" and c = "CHR ''M''"]
  by (simp add: eval_simps arrives_whole_def)

subsection \<open>Characters that do not start an escape sequence\<close>

text \<open>
  Claim C7. A character other than ESC read at the head of the outer loop is looked up in
  the table: if it is a key, the mapped key names are emitted as key events in the order of
  the table; otherwise exactly one key event named by the character itself is emitted. In both
  cases the outer loop goes on with the rest of the input.
\<close>

theorem single_character_key:
  assumes "ch u \<noteq> ESC"
  shows "fst (parse tbl p (u # rest)) =
           (case tbl [ch u] of Some keys \<Rightarrow> map Key keys | None \<Rightarrow> [Key [ch u]])
             @ fst (parse tbl (debug_log (LogCharacter [ch u]) p) rest)
         \<and> fst (parse tbl p [u]) =
           (case tbl [ch u] of Some keys \<Rightarrow> map Key keys | None \<Rightarrow> [Key [ch u]])"
  using assms by (simp add: parse_plain parse.simps(1))

theorem single_character_key_witness:
  "CHR ''a'' \<noteq> ESC
   \<and> fst (parse Map.empty (init False)
            [\<lparr>ch = CHR ''a'', buffered = False, more_data = False\<rparr>]) = [Key ''a'']
   \<and> fst (parse [''a'' \<mapsto> [''x'', ''y'']] (init False)
            [\<lparr>ch = CHR ''a'', buffered = False, more_data = False\<rparr>]) = [Key ''x'', Key ''y'']"
  using single_character_key
          [of "\<lparr>ch = CHR ''a'', buffered = False, more_data = False\<rparr>" Map.empty "init False"
              "[]"]
        single_character_key
          [of "\<lparr>ch = CHR ''a'', buffered = False, more_data = False\<rparr>"
              "[''a'' \<mapsto> [''x'', ''y'']]" "init False" "[]"]
  by (simp add: ESC_def parse.simps(1))

subsection \<open>A lone ESC and the end of the stream\<close>

text \<open>
  Claim C8. A lone ESC with nothing queued and no more data expected emits no event, and
  leaves the routine at the read of line 85. When the end of the stream is signalled there,
  the read comes back with the empty text and \<^verbatim>\<open>on_token\<close> is given a key event that carries
  it: one event is emitted, not none.
\<close>

theorem lone_escape_end_of_stream:
  "fst (parse Map.empty (init False) [\<lparr>ch = ESC, buffered = False, more_data = False\<rparr>]) = []
   \<and> fst (end_of_stream Map.empty
            (snd (parse Map.empty (init False)
                    [\<lparr>ch = ESC, buffered = False, more_data = False\<rparr>])))
       = [Key []]"
  by (simp add: eval_simps)

subsection \<open>The last mouse position\<close>




subsection \<open>The debug file\<close>

text \<open>
  Claim C10. For every table, input and availability answers, the events emitted and the
  last mouse position are the same whether the debug file is open or absent.
\<close>

theorem debug_sink_irrelevant:
  "fst (parse tbl (p\<lparr>debug_log_file := Some f\<rparr>) inp)
     = fst (parse tbl (p\<lparr>debug_log_file := None\<rparr>) inp)
   \<and> same_mouse (snd (parse tbl (p\<lparr>debug_log_file := Some f\<rparr>) inp))
                (snd (parse tbl (p\<lparr>debug_log_file := None\<rparr>) inp))
   \<and> fst (parse tbl (init True) inp) = fst (parse tbl (init False) inp)"
proof -
  have "same_mouse (p\<lparr>debug_log_file := Some f\<rparr>) (p\<lparr>debug_log_file := None\<rparr>)"
    by (simp add: same_mouse_def)
  from parse_same [OF this]
  have a: "fst (parse tbl (p\<lparr>debug_log_file := Some f\<rparr>) inp)
             = fst (parse tbl (p\<lparr>debug_log_file := None\<rparr>) inp)
           \<and> same_mouse (snd (parse tbl (p\<lparr>debug_log_file := Some f\<rparr>) inp))
                        (snd (parse tbl (p\<lparr>debug_log_file := None\<rparr>) inp))" .
  have "same_mouse (init True) (init False)"
    by (simp add: same_mouse_def init_def)
  from parse_same [OF this]
  have "fst (parse tbl (init True) inp) = fst (parse tbl (init False) inp)" by simp
  with a show ?thesis by simp
qed

theorem debug_sink_irrelevant_witness:
  "fst (parse [ESC # ''[A'' \<mapsto> [''up'']] (init True)
          [\<lparr>ch = ESC, buffered = True, more_data = False\<rparr>,
           \<lparr>ch = CHR ''['', buffered = True, more_data = False\<rparr>,
           \<lparr>ch = CHR ''A'', buffered = False, more_data = False\<rparr>]) = [Key ''up'']
   \<and> fst (parse [ESC # ''[A'' \<mapsto> [''up'']] (init False)
          [\<lparr>ch = ESC, buffered = True, more_data = False\<rparr>,
           \<lparr>ch = CHR ''['', buffered = True, more_data = False\<rparr>,
           \<lparr>ch = CHR ''A'', buffered = False, more_data = False\<rparr>]) = [Key ''up'']"
  using debug_sink_irrelevant
          [where tbl = "[ESC # ''[A'' \<mapsto> [''up'']]" and p = "init False" and f = "[]"
             and inp = "[\<lparr>ch = ESC, buffered = True, more_data = False\<rparr>,
                \<lparr>ch = CHR ''['', buffered = True, more_data = False\<rparr>,
                \<lparr>ch = CHR ''A'', buffered = False, more_data = False\<rparr>]"]
  by (simp add: eval_simps)

end
